theory Spec2Isabelle
  imports Complex_Main "HOL-Library.Word"
begin

unbundle bit_operations_syntax

section \<open>Scalar utilities of util.h\<close>

text \<open>
  The helpers of util.h are C++ templates over a value type \<open>T\<close>. Those that only
  compare their arguments are embedded over an arbitrary total order
  (\<open>'a::linorder\<close>: the integer types, and floating point away from NaN).
  \<open>smooth_step\<close>, \<open>catmul_rom_spline\<close> and \<open>get_barycentric\<close> calculate in a
  floating-point \<open>T\<close>: they are embedded with the arithmetic of \<open>T\<close> written out,
  every operation of the source being the exact operation followed by one rounding
  to \<open>T\<close>. \<open>lerp\<close> and \<open>smooth_stop5\<close> are embedded in exact arithmetic; they are
  only looked at where the floating-point operations are exact.
  \<open>unsigned int\<close> and \<open>int\<close> are \<open>32 word\<close>, the latter read by \<open>sint\<close>, and
  \<open>u64\<close> is \<open>64 word\<close>. Where the C++ standard leaves the behaviour undefined (a
  shift by the width of \<open>int\<close>, a conversion to \<open>int\<close> of a value that does not fit,
  signed overflow), the embedding returns \<open>None\<close>.
\<close>

subsection \<open>Two-argument minimum and maximum of the standard library\<close>

text \<open>
  \<open>using std::min; using std::max;\<close> The standard defines
  \<open>std::min(a, b)\<close> as \<open>(b < a) ? b : a\<close> and \<open>std::max(a, b)\<close> as
  \<open>(a < b) ? b : a\<close>.
\<close>

definition std_min :: "'a::linorder \<Rightarrow> 'a \<Rightarrow> 'a" where
  "std_min a b = (if b < a then b else a)"

definition std_max :: "'a::linorder \<Rightarrow> 'a \<Rightarrow> 'a" where
  "std_max a b = (if a < b then b else a)"

subsection \<open>n-ary min and max\<close>

definition min3 :: "'a::linorder \<Rightarrow> 'a \<Rightarrow> 'a \<Rightarrow> 'a" where
  "min3 a1 a2 a3 = std_min a1 (std_min a2 a3)"

definition min4 :: "'a::linorder \<Rightarrow> 'a \<Rightarrow> 'a \<Rightarrow> 'a \<Rightarrow> 'a" where
  "min4 a1 a2 a3 a4 = std_min (std_min a1 a2) (std_min a3 a4)"

definition min5 :: "'a::linorder \<Rightarrow> 'a \<Rightarrow> 'a \<Rightarrow> 'a \<Rightarrow> 'a \<Rightarrow> 'a" where
  "min5 a1 a2 a3 a4 a5 = min3 (std_min a1 a2) (std_min a3 a4) a5"

definition min6 :: "'a::linorder \<Rightarrow> 'a \<Rightarrow> 'a \<Rightarrow> 'a \<Rightarrow> 'a \<Rightarrow> 'a \<Rightarrow> 'a" where
  "min6 a1 a2 a3 a4 a5 a6 = min3 (std_min a1 a2) (std_min a3 a4) (std_min a5 a6)"

definition max3 :: "'a::linorder \<Rightarrow> 'a \<Rightarrow> 'a \<Rightarrow> 'a" where
  "max3 a1 a2 a3 = std_max a1 (std_max a2 a3)"

definition max4 :: "'a::linorder \<Rightarrow> 'a \<Rightarrow> 'a \<Rightarrow> 'a \<Rightarrow> 'a" where
  "max4 a1 a2 a3 a4 = std_max (std_max a1 a2) (std_max a3 a4)"

definition max5 :: "'a::linorder \<Rightarrow> 'a \<Rightarrow> 'a \<Rightarrow> 'a \<Rightarrow> 'a \<Rightarrow> 'a" where
  "max5 a1 a2 a3 a4 a5 = max3 (std_max a1 a2) (std_max a3 a4) a5"

definition max6 :: "'a::linorder \<Rightarrow> 'a \<Rightarrow> 'a \<Rightarrow> 'a \<Rightarrow> 'a \<Rightarrow> 'a \<Rightarrow> 'a" where
  "max6 a1 a2 a3 a4 a5 a6 = max3 (std_max a1 a2) (std_max a3 a4) (std_max a5 a6)"

subsection \<open>minmax\<close>

text \<open>
  The overloads write their results through the references \<open>amin\<close> and \<open>amax\<close>,
  which they never read: each is embedded as a function returning the pair
  \<open>(amin, amax)\<close>.
\<close>

definition minmax2 :: "'a::linorder \<Rightarrow> 'a \<Rightarrow> 'a \<times> 'a" where
  "minmax2 a1 a2 = (if a1 < a2 then (a1, a2) else (a2, a1))"

definition minmax3 :: "'a::linorder \<Rightarrow> 'a \<Rightarrow> 'a \<Rightarrow> 'a \<times> 'a" where
  "minmax3 a1 a2 a3 =
     (if a1 < a2 then
        (if a1 < a3 then (a1, if a2 < a3 then a3 else a2)
         else (a3, if a1 < a2 then a2 else a1))
      else
        (if a2 < a3 then (a2, if a1 < a3 then a3 else a1)
         else (a3, a1)))"

definition minmax4 :: "'a::linorder \<Rightarrow> 'a \<Rightarrow> 'a \<Rightarrow> 'a \<Rightarrow> 'a \<times> 'a" where
  "minmax4 a1 a2 a3 a4 =
     (if a1 < a2 then
        (if a3 < a4 then (std_min a1 a3, std_max a2 a4)
         else (std_min a1 a4, std_max a2 a3))
      else
        (if a3 < a4 then (std_min a2 a3, std_max a1 a4)
         else (std_min a2 a4, std_max a1 a3)))"

definition minmax5 :: "'a::linorder \<Rightarrow> 'a \<Rightarrow> 'a \<Rightarrow> 'a \<Rightarrow> 'a \<Rightarrow> 'a \<times> 'a" where
  "minmax5 a1 a2 a3 a4 a5 = (min5 a1 a2 a3 a4 a5, max5 a1 a2 a3 a4 a5)"

definition minmax6 :: "'a::linorder \<Rightarrow> 'a \<Rightarrow> 'a \<Rightarrow> 'a \<Rightarrow> 'a \<Rightarrow> 'a \<Rightarrow> 'a \<times> 'a" where
  "minmax6 a1 a2 a3 a4 a5 a6 = (min6 a1 a2 a3 a4 a5 a6, max6 a1 a2 a3 a4 a5 a6)"

subsection \<open>update_minmax and clamp\<close>

text \<open>\<open>update_minmax\<close> updates \<open>amin\<close> and \<open>amax\<close> in place; the embedding takes the
  old pair and returns the new one.\<close>

definition update_minmax :: "'a::linorder \<Rightarrow> 'a \<times> 'a \<Rightarrow> 'a \<times> 'a" where
  "update_minmax a1 mm =
     (case mm of (amin, amax) \<Rightarrow>
        if a1 < amin then (a1, amax)
        else if a1 > amax then (amin, a1)
        else (amin, amax))"

definition clamp :: "'a::linorder \<Rightarrow> 'a \<Rightarrow> 'a \<Rightarrow> 'a" where
  "clamp a lower upper =
     (if a < lower then lower
      else if a > upper then upper
      else a)"

subsection \<open>Floating-point arithmetic\<close>

text \<open>
  \<open>float\<close> and \<open>double\<close> are the IEEE 754 formats binary32 and binary64: precision
  \<open>p\<close> of 24 and 53 bits, largest exponent \<open>emax\<close> of 127 and 1023, smallest
  exponent \<open>1 - emax\<close>. A finite value is embedded as the real number it stands for
  (the two zeros are one value; they compare equal), and \<open>None\<close> stands for the
  infinities and NaN, which \<open>+\<close>, \<open>-\<close> and \<open>*\<close> never turn back into a finite value.

  An operation returns its exact result rounded to the nearest value of the format,
  ties to the value with an even significand, and an infinity when the rounded result
  is too large. \<open>quantum\<close> is the exponent of the last place of the significand for a
  result of the magnitude of \<open>x\<close>; it does not go below that of the subnormal
  numbers. \<open>round_exact\<close> is no rounding at all: arithmetic in the real numbers.
\<close>

definition round_half_even :: "real \<Rightarrow> int" where
  "round_half_even x =
     (let f = \<lfloor>x\<rfloor>; d = x - of_int f
      in if d < 1 / 2 then f
         else if 1 / 2 < d then f + 1
         else if even f then f else f + 1)"

definition quantum :: "nat \<Rightarrow> int \<Rightarrow> real \<Rightarrow> int" where
  "quantum p emax x = max (\<lfloor>log 2 \<bar>x\<bar>\<rfloor> - (int p - 1)) (1 - emax - (int p - 1))"

definition round_binary :: "nat \<Rightarrow> int \<Rightarrow> real \<Rightarrow> real option" where
  "round_binary p emax x =
     (if x = 0 then Some 0
      else let q = quantum p emax x;
               y = of_int (round_half_even (x / 2 powi q)) * 2 powi q
           in if \<bar>y\<bar> < 2 powi (emax + 1) then Some y else None)"

definition round_double :: "real \<Rightarrow> real option" where
  "round_double = round_binary 53 1023"




definition fsub :: "(real \<Rightarrow> real option) \<Rightarrow> real option \<Rightarrow> real option \<Rightarrow> real option" where
  "fsub rnd a b = (case (a, b) of (Some x, Some y) \<Rightarrow> rnd (x - y) | _ \<Rightarrow> None)"


subsection \<open>smooth_step\<close>


subsection \<open>Interpolation\<close>

text \<open>
  \<open>lerp\<close> is a template over a value type \<open>S\<close> that is scaled by a floating-point
  parameter: a scalar or one of the vector types. The embedding takes \<open>S\<close> to be any
  real vector space; \<open>real\<close> itself is one, with \<open>(*\<^sub>R)\<close> the multiplication.
\<close>

definition lerp :: "'a::real_vector \<Rightarrow> 'a \<Rightarrow> real \<Rightarrow> 'a" where
  "lerp value0 value1 f = (1 - f) *\<^sub>R value0 + f *\<^sub>R value1"


subsection \<open>Easing: the two copies of smooth_stop5\<close>

text \<open>
  \<open>smooth_stop5\<close> is defined twice in the repository: in util.h and in the later
  revision of the same header. Both first replace \<open>t\<close> by \<open>t / d - 1\<close>.
\<close>

definition smooth_stop5_util_h :: "real \<Rightarrow> real \<Rightarrow> real \<Rightarrow> real \<Rightarrow> real" where
  "smooth_stop5_util_h t b c d =
     (let t = t / d - 1 in - c * (t * t * t * t * t + 1) + b)"

definition smooth_stop5_part_000 :: "real \<Rightarrow> real \<Rightarrow> real \<Rightarrow> real \<Rightarrow> real" where
  "smooth_stop5_part_000 t b c d =
     (let t = t / d - 1 in c * (t * t * t * t * t + 1) + b)"

text \<open>The sibling \<open>smooth_stop3\<close>, which is the same in both copies.\<close>

definition smooth_stop3 :: "real \<Rightarrow> real \<Rightarrow> real \<Rightarrow> real \<Rightarrow> real" where
  "smooth_stop3 t b c d =
     (let t = t / d - 1 in c * (t * t * t + 1) + b)"

subsection \<open>Rounding to a power of two\<close>

text \<open>
  \<open>n\<close> is an \<open>unsigned int\<close>: \<open>--n\<close> wraps around and \<open>n >>= 1\<close> is a logical
  shift. \<open>exponent\<close> only counts up from 0 and never exceeds 32, so it is a \<open>nat\<close>.
  Each loop is a recursive function over the pair \<open>(n, exponent)\<close> returning the
  final \<open>exponent\<close>.

  The result is \<open>1 << exponent\<close>, a shift of the \<open>int\<close> constant 1, converted to
  \<open>unsigned int\<close>. For \<open>exponent < 32\<close> its value is \<open>2 ^ exponent\<close> (at 31 the
  \<open>int\<close> is negative and converts to \<open>2 ^ 31\<close>). For \<open>exponent \<ge> 32\<close>, the width
  of \<open>int\<close>, the C++ standard leaves the shift undefined: no value is returned.
\<close>

function round_up_loop :: "32 word \<Rightarrow> nat \<Rightarrow> nat" where
  "round_up_loop n exponent =
     (if n \<noteq> 0 then round_up_loop (drop_bit 1 n) (exponent + 1) else exponent)"
  by pat_completeness auto
termination
proof (relation "measure (\<lambda>(n, exponent). unat n)")
  show "wf (measure (\<lambda>(n :: 32 word, exponent :: nat). unat n))"
    by simp
next
  fix n :: "32 word" and exponent :: nat
  assume "n \<noteq> 0"
  then have "0 < unat n"
    by (simp add: unat_gt_0)
  then have "unat n div 2 < unat n"
    by simp
  then show "((drop_bit 1 n, exponent + 1), (n, exponent)) \<in> measure (\<lambda>(n, exponent). unat n)"
    by (simp add: drop_bit_eq_div unat_div)
qed

definition int_shift_left_1 :: "nat \<Rightarrow> 32 word option" where
  "int_shift_left_1 exponent = (if exponent < 32 then Some (push_bit exponent 1) else None)"

definition round_up_to_power_of_two :: "32 word \<Rightarrow> 32 word option" where
  "round_up_to_power_of_two n = int_shift_left_1 (round_up_loop (n - 1) 0)"

function round_down_loop :: "32 word \<Rightarrow> nat \<Rightarrow> nat" where
  "round_down_loop n exponent =
     (if n > 1 then round_down_loop (drop_bit 1 n) (exponent + 1) else exponent)"
  by pat_completeness auto
termination
proof (relation "measure (\<lambda>(n, exponent). unat n)")
  show "wf (measure (\<lambda>(n :: 32 word, exponent :: nat). unat n))"
    by simp
next
  fix n :: "32 word" and exponent :: nat
  assume "1 < n"
  then have "0 < unat n"
    by (simp add: word_less_nat_alt)
  then have "unat n div 2 < unat n"
    by simp
  then show "((drop_bit 1 n, exponent + 1), (n, exponent)) \<in> measure (\<lambda>(n, exponent). unat n)"
    by (simp add: drop_bit_eq_div unat_div)
qed

definition round_down_to_power_of_two :: "32 word \<Rightarrow> 32 word option" where
  "round_down_to_power_of_two n = int_shift_left_1 (round_down_loop n 0)"

subsection \<open>Morton codes\<close>

text \<open>
  \<open>morton_xy2d\<close> writes the code through the pointer \<open>d\<close>; the embedding returns
  it. \<open>morton_1\<close> returns \<open>u32\<close>, the low half of its last \<open>u64\<close> value, and
  \<open>morton_d2xy\<close> stores the two results in \<open>u64\<close> references, widening them
  again; the embedding returns the pair \<open>(x, y)\<close>.
\<close>

definition morton_xy2d :: "64 word \<Rightarrow> 64 word \<Rightarrow> 64 word" where
  "morton_xy2d x y =
     (let x = (x OR push_bit 16 x) AND 0x0000FFFF0000FFFF;
          x = (x OR push_bit 8 x) AND 0x00FF00FF00FF00FF;
          x = (x OR push_bit 4 x) AND 0x0F0F0F0F0F0F0F0F;
          x = (x OR push_bit 2 x) AND 0x3333333333333333;
          x = (x OR push_bit 1 x) AND 0x5555555555555555;
          y = (y OR push_bit 16 y) AND 0x0000FFFF0000FFFF;
          y = (y OR push_bit 8 y) AND 0x00FF00FF00FF00FF;
          y = (y OR push_bit 4 y) AND 0x0F0F0F0F0F0F0F0F;
          y = (y OR push_bit 2 y) AND 0x3333333333333333;
          y = (y OR push_bit 1 y) AND 0x5555555555555555
      in x OR push_bit 1 y)"

definition morton_1 :: "64 word \<Rightarrow> 32 word" where
  "morton_1 x =
     (let x = x AND 0x5555555555555555;
          x = (x OR drop_bit 1 x) AND 0x3333333333333333;
          x = (x OR drop_bit 2 x) AND 0x0F0F0F0F0F0F0F0F;
          x = (x OR drop_bit 4 x) AND 0x00FF00FF00FF00FF;
          x = (x OR drop_bit 8 x) AND 0x0000FFFF0000FFFF;
          x = (x OR drop_bit 16 x) AND 0x00000000FFFFFFFF
      in ucast x)"

definition morton_d2xy :: "64 word \<Rightarrow> 64 word \<times> 64 word" where
  "morton_d2xy d = (ucast (morton_1 d), ucast (morton_1 (drop_bit 1 d)))"

text \<open>
  For the proofs, the masked shifts are named. One step of \<open>morton_xy2d\<close> is
  \<open>x = (x | (x << s)) & m\<close>, one step of \<open>morton_1\<close> is
  \<open>x = (x | (x >> s)) & m\<close>; \<open>morton_spread\<close> is the sequence of five steps that
  \<open>morton_xy2d\<close> applies to \<open>x\<close> and to \<open>y\<close> alike, and \<open>morton_compact\<close> is the
  sequence of \<open>morton_1\<close> before the conversion to \<open>u32\<close>.
\<close>

definition spread_stage :: "nat \<Rightarrow> 64 word \<Rightarrow> 64 word \<Rightarrow> 64 word" where
  "spread_stage s m x = (x OR push_bit s x) AND m"

definition compact_stage :: "nat \<Rightarrow> 64 word \<Rightarrow> 64 word \<Rightarrow> 64 word" where
  "compact_stage s m x = (x OR drop_bit s x) AND m"

definition morton_spread :: "64 word \<Rightarrow> 64 word" where
  "morton_spread x =
     spread_stage 1 0x5555555555555555 (spread_stage 2 0x3333333333333333
       (spread_stage 4 0x0F0F0F0F0F0F0F0F (spread_stage 8 0x00FF00FF00FF00FF
         (spread_stage 16 0x0000FFFF0000FFFF x))))"

definition morton_compact :: "64 word \<Rightarrow> 64 word" where
  "morton_compact x =
     compact_stage 16 0x00000000FFFFFFFF (compact_stage 8 0x0000FFFF0000FFFF
       (compact_stage 4 0x00FF00FF00FF00FF (compact_stage 2 0x0F0F0F0F0F0F0F0F
         (compact_stage 1 0x3333333333333333 (x AND 0x5555555555555555)))))"

subsection \<open>get_barycentric\<close>

text \<open>
  \<open>x\<close> is a finite value of \<open>T\<close> and \<open>rnd\<close> the rounding of \<open>T\<close>. \<open>std::floor\<close> is
  exact: the floor of a value of a binary format is a value of the format.
  \<open>(int)s\<close> discards the fractional part; when the result does not fit \<open>int\<close> the
  conversion is undefined. \<open>i_high - 2\<close> is a subtraction of \<open>int\<close>, undefined when
  it overflows; the source evaluates it only when \<open>i < i_low\<close> is false. The
  function returns the pair \<open>(i, f)\<close> that the source stores through its reference
  parameters, or \<open>None\<close> when its behaviour is undefined.
\<close>

definition int_cast :: "real \<Rightarrow> 32 word option" where
  "int_cast s =
     (let k = (if s < 0 then \<lceil>s\<rceil> else \<lfloor>s\<rfloor>)
      in if - (2 ^ 31) \<le> k \<and> k < 2 ^ 31 then Some (word_of_int k) else None)"

definition get_barycentric ::
  "(real \<Rightarrow> real option) \<Rightarrow> real \<Rightarrow> 32 word \<Rightarrow> 32 word \<Rightarrow> (32 word \<times> real option) option" where
  "get_barycentric rnd x i_low i_high =
     (let s = real_of_int \<lfloor>x\<rfloor>
      in case int_cast s of
           None \<Rightarrow> None
         | Some i \<Rightarrow>
             if sint i < sint i_low then Some (i_low, Some 0)
             else if sint i_high - 2 < - (2 ^ 31) then None
             else if sint i > sint (i_high - 2) then Some (i_high - 2, Some 1)
             else Some (i, fsub rnd (Some x) (Some s)))"

section \<open>Facts about the two-argument minimum and maximum\<close>

lemma std_min_eq_min: "std_min a b = min a b"
  by (auto simp: std_min_def min_def)

lemma std_max_eq_max: "std_max a b = max a b"
  by (auto simp: std_max_def max_def)

section \<open>minmax\<close>

lemma minmax2_Min_Max: "minmax2 a1 a2 = (Min {a1, a2}, Max {a1, a2})"
  by (auto simp: minmax2_def min_def max_def)

lemma minmax3_Min_Max: "minmax3 a1 a2 a3 = (Min {a1, a2, a3}, Max {a1, a2, a3})"
  by (auto simp: minmax3_def min_def max_def)

lemma minmax4_Min_Max:
  "minmax4 a1 a2 a3 a4 = (Min {a1, a2, a3, a4}, Max {a1, a2, a3, a4})"
  by (auto simp: minmax4_def std_min_eq_min std_max_eq_max min_def max_def)

lemma min5_Min: "min5 a1 a2 a3 a4 a5 = Min {a1, a2, a3, a4, a5}"
  by (simp add: min5_def min3_def std_min_eq_min min.assoc)

lemma max5_Max: "max5 a1 a2 a3 a4 a5 = Max {a1, a2, a3, a4, a5}"
  by (simp add: max5_def max3_def std_max_eq_max max.assoc)

lemma min6_Min: "min6 a1 a2 a3 a4 a5 a6 = Min {a1, a2, a3, a4, a5, a6}"
  by (simp add: min6_def min3_def std_min_eq_min min.assoc)

lemma max6_Max: "max6 a1 a2 a3 a4 a5 a6 = Max {a1, a2, a3, a4, a5, a6}"
  by (simp add: max6_def max3_def std_max_eq_max max.assoc)

text \<open>
  C3. For every arity from 2 to 6, \<open>minmax\<close> sets \<open>amin\<close> to the minimum of its
  arguments and \<open>amax\<close> to their maximum: the nested comparisons of the 2-, 3- and
  4-argument overloads and the delegation to the n-ary \<open>min\<close> and \<open>max\<close> of the
  5- and 6-argument overloads meet the same postcondition.
\<close>

theorem minmax_is_Min_Max:
  "minmax2 a1 a2 = (Min {a1, a2}, Max {a1, a2}) \<and>
   minmax3 a1 a2 a3 = (Min {a1, a2, a3}, Max {a1, a2, a3}) \<and>
   minmax4 a1 a2 a3 a4 = (Min {a1, a2, a3, a4}, Max {a1, a2, a3, a4}) \<and>
   minmax5 a1 a2 a3 a4 a5 = (Min {a1, a2, a3, a4, a5}, Max {a1, a2, a3, a4, a5}) \<and>
   minmax6 a1 a2 a3 a4 a5 a6 =
     (Min {a1, a2, a3, a4, a5, a6}, Max {a1, a2, a3, a4, a5, a6})"
  unfolding minmax5_def minmax6_def min5_Min max5_Max min6_Min max6_Max
  using minmax2_Min_Max minmax3_Min_Max minmax4_Min_Max by blast

section \<open>update_minmax\<close>

text \<open>
  C7. Starting from a pair with \<open>amin \<le> amax\<close>, \<open>update_minmax\<close> moves the
  bounds outward only (the new \<open>amin\<close> is at most the old one, the new \<open>amax\<close> at
  least the old one), and afterwards the pair includes the value \<open>a1\<close>.
\<close>

theorem update_minmax_extends:
  "amin \<le> amax \<Longrightarrow>
     fst (update_minmax a1 (amin, amax)) \<le> amin \<and>
     amax \<le> snd (update_minmax a1 (amin, amax)) \<and>
     fst (update_minmax a1 (amin, amax)) \<le> a1 \<and>
     a1 \<le> snd (update_minmax a1 (amin, amax))"
  by (auto simp: update_minmax_def)

theorem update_minmax_extends_witness:
  "(2::int) \<le> 5 \<and> update_minmax (7::int) (2, 5) = (2, 7) \<and>
     fst (update_minmax (7::int) (2, 5)) \<le> 2 \<and>
     5 \<le> snd (update_minmax (7::int) (2, 5)) \<and>
     fst (update_minmax (7::int) (2, 5)) \<le> 7 \<and>
     7 \<le> snd (update_minmax (7::int) (2, 5))"
proof -
  have h: "(2::int) \<le> 5" by simp
  have v: "update_minmax (7::int) (2, 5) = (2, 7)"
    by (simp add: update_minmax_def)
  from h v update_minmax_extends [OF h, of 7] show ?thesis
    by blast
qed

section \<open>clamp\<close>

text \<open>
  C6. When \<open>lower \<le> upper\<close>, \<open>clamp a lower upper\<close> lies in the closed interval
  from \<open>lower\<close> to \<open>upper\<close>; it is \<open>a\<close> itself when \<open>a\<close> is in the interval, and
  otherwise the nearest bound: \<open>lower\<close> for \<open>a\<close> below, \<open>upper\<close> for \<open>a\<close> above.
\<close>

theorem clamp_in_interval:
  "lower \<le> upper \<Longrightarrow>
     lower \<le> clamp a lower upper \<and> clamp a lower upper \<le> upper \<and>
     (lower \<le> a \<and> a \<le> upper \<longrightarrow> clamp a lower upper = a) \<and>
     (a < lower \<longrightarrow> clamp a lower upper = lower) \<and>
     (upper < a \<longrightarrow> clamp a lower upper = upper)"
  by (auto simp: clamp_def)

theorem clamp_in_interval_witness:
  "(0::int) \<le> 10 \<and>
     clamp (15::int) 0 10 = 10 \<and> clamp (-3::int) 0 10 = 0 \<and> clamp (4::int) 0 10 = 4"
proof -
  have h: "(0::int) \<le> 10" by simp
  from clamp_in_interval [OF h, of 15] clamp_in_interval [OF h, of "-3"]
    clamp_in_interval [OF h, of 4]
  show ?thesis by simp
qed

section \<open>lerp\<close>

text \<open>
  C10. \<open>lerp\<close> returns its endpoints at the endpoint parameters:
  \<open>lerp a b 0\<close> is \<open>a\<close> and \<open>lerp a b 1\<close> is \<open>b\<close>.
\<close>

theorem lerp_endpoints: "lerp a b 0 = a \<and> lerp a b 1 = b"
  by (simp add: lerp_def)

section \<open>Rounding\<close>

text \<open>Evaluating a rounding: between which powers of two the exact result lies
  fixes its quantum.\<close>

lemma floor_log2_eqI:
  assumes "2 powi k \<le> \<bar>x\<bar>" "\<bar>x\<bar> < 2 powi (k + 1)"
  shows "\<lfloor>log 2 \<bar>x\<bar>\<rfloor> = k"
proof -
  have "(0 :: real) < 2 powi k"
    by simp
  with assms(1) have "0 < \<bar>x\<bar>"
    by linarith
  moreover have "(2::real) powr (of_int k) = 2 powi k"
    "(2::real) powr (of_int k + 1) = 2 powi (k + 1)"
    using powr_real_of_int' [of 2 k] powr_real_of_int' [of 2 "k + 1"] by simp_all
  ultimately show ?thesis
    using assms by (simp add: floor_log_eq_powr_iff)
qed

lemma round_binary_eval:
  assumes "2 powi k \<le> \<bar>x\<bar>" "\<bar>x\<bar> < 2 powi (k + 1)"
    and "q = max (k - (int p - 1)) (1 - emax - (int p - 1))"
    and "round_half_even (x / 2 powi q) = m"
    and "\<bar>of_int m * 2 powi q\<bar> < (2 :: real) powi (emax + 1)"
  shows "round_binary p emax x = Some (of_int m * 2 powi q)"
proof -
  have "(0 :: real) < 2 powi k"
    by simp
  with assms(1) have "0 < \<bar>x\<bar>"
    by linarith
  then have "x \<noteq> 0"
    by simp
  moreover have "quantum p emax x = q"
    using floor_log2_eqI [OF assms(1,2)] assms(3) by (simp add: quantum_def)
  ultimately show ?thesis
    using assms(4,5) by (simp add: round_binary_def Let_def)
qed

lemma round_half_even_between: "\<lfloor>x\<rfloor> \<le> round_half_even x \<and> round_half_even x \<le> \<lceil>x\<rceil>"
proof -
  have "\<lfloor>x\<rfloor> + 1 \<le> \<lceil>x\<rceil>" if "x - of_int \<lfloor>x\<rfloor> \<ge> 1 / 2"
    using that by linarith
  then show ?thesis
    by (auto simp add: round_half_even_def Let_def)
qed


lemma round_half_even_abs_le:
  assumes "\<bar>x\<bar> \<le> of_int n"
  shows "\<bar>round_half_even x\<bar> \<le> n"
proof -
  have "- n \<le> \<lfloor>x\<rfloor>" "\<lceil>x\<rceil> \<le> n"
    using assms by (simp_all add: le_floor_iff ceiling_le_iff abs_le_iff)
  with round_half_even_between [of x] show ?thesis
    by linarith
qed

lemma round_half_even_nonneg: "0 \<le> x \<Longrightarrow> 0 \<le> round_half_even x"
  using round_half_even_between [of x] zero_le_floor [of x] by linarith

lemma floor_log2_le:
  assumes "x \<noteq> 0" "\<bar>x\<bar> \<le> 2 powi k"
  shows "\<lfloor>log 2 \<bar>x\<bar>\<rfloor> \<le> k"
proof -
  have "log 2 \<bar>x\<bar> \<le> log 2 (2 powi k)"
    using assms by (simp add: log_le_cancel_iff)
  also have "\<dots> = of_int k"
    using powr_real_of_int' [of 2 k] log_powr_cancel [of 2 "of_int k"] by simp
  finally show ?thesis
    by (simp add: floor_le_iff) 
qed

lemma round_binary_bounded:
  assumes "\<bar>x\<bar> \<le> 2 powi k" "1 - emax - (int p - 1) \<le> k" "k \<le> emax" "0 < p"
  shows "\<exists>z. round_binary p emax x = Some z \<and> \<bar>z\<bar> \<le> 2 powi k \<and> (0 \<le> x \<longrightarrow> 0 \<le> z)"
proof (cases "x = 0")
  case True
  then show ?thesis by (simp add: round_binary_def)
next
  case False
  define q where "q = quantum p emax x"
  define m where "m = round_half_even (x / 2 powi q)"
  have "q \<le> k"
    using floor_log2_le [OF False assms(1)] assms(2,4) by (simp add: q_def quantum_def)
  then have "(2 :: real) powi k = 2 powi (int (nat (k - q)) + q)"
    by simp
  also have "\<dots> = 2 powi int (nat (k - q)) * 2 powi q"
    by (rule power_int_add) simp
  also have "(2 :: real) powi int (nat (k - q)) = of_int (2 ^ nat (k - q))"
    by (simp only: power_int_of_nat) simp
  finally have pw: "(2 :: real) powi k = of_int (2 ^ nat (k - q)) * 2 powi q" .
  have "\<bar>x / 2 powi q\<bar> \<le> of_int (2 ^ nat (k - q))"
    using assms(1) unfolding pw by (simp add: field_simps abs_mult)
  then have "\<bar>m\<bar> \<le> 2 ^ nat (k - q)"
    unfolding m_def by (rule round_half_even_abs_le)
  then have "\<bar>real_of_int m\<bar> \<le> of_int (2 ^ nat (k - q))"
    by (metis of_int_abs of_int_le_iff)
  then have le: "\<bar>of_int m * 2 powi q\<bar> \<le> (2 :: real) powi k"
    unfolding pw by (simp add: abs_mult mult_right_mono)
  also have "\<dots> < 2 powi (emax + 1)"
    using assms(3) by (simp add: power_int_strict_increasing)
  finally have "round_binary p emax x = Some (of_int m * 2 powi q)"
    using False by (simp add: round_binary_def Let_def q_def m_def)
  moreover have "0 \<le> real_of_int m * 2 powi q" if "0 \<le> x"
    using that round_half_even_nonneg [of "x / 2 powi q"] by (simp add: m_def)
  ultimately show ?thesis
    using le by simp
qed

lemma round_double_bounded:
  assumes "\<bar>x\<bar> \<le> 2 powi k" "0 \<le> k" "k \<le> 1023"
  shows "\<exists>z. round_double x = Some z \<and> \<bar>z\<bar> \<le> 2 powi k \<and> (0 \<le> x \<longrightarrow> 0 \<le> z)"
  unfolding round_double_def using assms by (intro round_binary_bounded) simp_all

lemma round_double_unit:
  assumes "0 \<le> y" "y \<le> 1"
  shows "\<exists>z. round_double y = Some z \<and> 0 \<le> z \<and> z \<le> 1"
  using round_double_bounded [of y 0] assms by auto






lemma fsub_None: "fsub rnd None b = None" "fsub rnd a None = None"
  by (simp_all add: fsub_def split: option.split)







section \<open>The uniform Catmull-Rom spline\<close>




































section \<open>smooth_step\<close>































section \<open>Rounding zero to a power of two\<close>

lemma drop_bit_1_mask_Suc:
  "Suc k \<le> 32 \<Longrightarrow> drop_bit 1 (mask (Suc k) :: 32 word) = mask k"
  by (rule bit_word_eqI) (auto simp add: bit_simps)

lemma mask_Suc_neq_0: "(mask (Suc k) :: 32 word) \<noteq> 0"
proof
  assume "(mask (Suc k) :: 32 word) = 0"
  then have "bit (mask (Suc k) :: 32 word) 0 = bit (0 :: 32 word) 0"
    by simp
  then show False
    by (simp add: bit_simps)
qed

text \<open>On a word whose low \<open>k\<close> bits are all set, the loop of \<open>round_up_to_power_of_two\<close>
  runs \<open>k\<close> times.\<close>

lemma round_up_loop_mask: "k \<le> 32 \<Longrightarrow> round_up_loop (mask k) e = e + k"
proof (induction k arbitrary: e)
  case 0
  then show ?case by simp
next
  case (Suc k)
  have "round_up_loop (mask (Suc k)) e = round_up_loop (drop_bit 1 (mask (Suc k))) (e + 1)"
    using mask_Suc_neq_0 [of k] by (subst round_up_loop.simps) simp
  also have "drop_bit 1 (mask (Suc k) :: 32 word) = mask k"
    using Suc.prems by (rule drop_bit_1_mask_Suc)
  also have "round_up_loop (mask k) (e + 1) = e + 1 + k"
    using Suc.prems by (intro Suc.IH) simp
  finally show ?case by simp
qed

lemma decrement_0_wraps: "(0 :: 32 word) - 1 = mask 32"
  by (rule bit_word_eqI) (auto simp add: bit_simps)

lemma round_up_loop_wrapped: "round_up_loop (0 - 1) 0 = 32"
  using round_up_loop_mask [of 32 0] by (simp only: decrement_0_wraps)

lemma round_up_to_power_of_two_0: "round_up_to_power_of_two 0 = None"
  by (simp only: round_up_to_power_of_two_def round_up_loop_wrapped)
    (simp add: int_shift_left_1_def)

text \<open>The examples of the specification, as a check of the embedding.\<close>

lemma round_to_power_of_two_examples:
  "round_up_to_power_of_two 5 = Some 8" "round_up_to_power_of_two 8 = Some 8"
  "round_down_to_power_of_two 5 = Some 4"
  by (simp_all add: round_up_to_power_of_two_def round_down_to_power_of_two_def
      int_shift_left_1_def)

text \<open>
  C4, as the claim states it: \<open>round_up_to_power_of_two 0\<close> returns 1 shifted left
  by 32, taken modulo \<open>2\<^sup>3\<^sup>2\<close>. The shift is one of the \<open>int\<close> constant 1 by the
  width of \<open>int\<close>, which is undefined: the code returns no defined value, and so
  not that one.
\<close>

theorem round_up_to_power_of_two_0_counterexample:
  "round_up_to_power_of_two 0 \<noteq> Some (push_bit 32 1)"
  by (simp only: round_up_to_power_of_two_def round_up_loop_wrapped)
    (simp add: int_shift_left_1_def)

text \<open>
  C4, amended. \<open>round_up_to_power_of_two 0\<close> underflows: the decrement wraps 0
  around to \<open>2\<^sup>3\<^sup>2 - 1\<close>, the loop then counts \<open>exponent\<close> up to 32, and the final
  shift \<open>1 << 32\<close> is undefined, so that no return value is defined. By contrast
  \<open>round_down_to_power_of_two 0\<close> does not enter its loop (the condition \<open>n > 1\<close>
  fails at once, \<open>exponent\<close> stays 0) and returns 1.
\<close>

theorem round_to_power_of_two_at_0:
  "unat ((0 :: 32 word) - 1) = 2 ^ 32 - 1 \<and>
   round_up_loop (0 - 1) 0 = 32 \<and>
   int_shift_left_1 32 = None \<and>
   round_up_to_power_of_two 0 = None \<and>
   \<not> (0 :: 32 word) > 1 \<and>
   round_down_loop 0 0 = 0 \<and>
   round_down_to_power_of_two 0 = Some 1"
proof (intro conjI)
  show "unat ((0 :: 32 word) - 1) = 2 ^ 32 - 1"
    by (simp add: unsigned_minus_1_eq_mask mask_eq_exp_minus_1)
  show "round_up_loop (0 - 1) 0 = 32"
    by (rule round_up_loop_wrapped)
  show "int_shift_left_1 32 = None"
    by (simp add: int_shift_left_1_def)
  show "round_up_to_power_of_two 0 = None"
    by (rule round_up_to_power_of_two_0)
  show "\<not> (0 :: 32 word) > 1"
    by simp
  show "round_down_loop 0 0 = 0"
    by simp
  show "round_down_to_power_of_two 0 = Some 1"
    by (simp add: round_down_to_power_of_two_def int_shift_left_1_def)
qed

section \<open>The two copies of smooth_stop5\<close>

text \<open>The copy in util.h is the other copy with the sign of \<open>c\<close> reversed.\<close>

lemma smooth_stop5_util_h_negates:
  "smooth_stop5_util_h t b c d = smooth_stop5_part_000 t b (- c) d"
  by (simp add: smooth_stop5_util_h_def smooth_stop5_part_000_def)

text \<open>At the end of the duration, \<open>t = d\<close>, the later copy and \<open>smooth_stop3\<close> have
  moved from \<open>b\<close> by \<open>c\<close>; the copy in util.h has moved by \<open>- c\<close>.\<close>

lemma smooth_stop_at_end:
  "d \<noteq> 0 \<Longrightarrow>
     smooth_stop3 d b c d = b + c \<and> smooth_stop5_part_000 d b c d = b + c \<and>
     smooth_stop5_util_h d b c d = b - c"
  by (simp add: smooth_stop3_def smooth_stop5_part_000_def smooth_stop5_util_h_def)

text \<open>
  C5. The claim is that the two copies of \<open>smooth_stop5\<close> return the same value
  for every \<open>t\<close>, \<open>b\<close>, \<open>c\<close> and every \<open>d \<noteq> 0\<close>. At \<open>t = 1\<close>, \<open>b = 0\<close>, \<open>c = 1\<close>,
  \<open>d = 1\<close> the copy in util.h returns \<open>-1\<close> and the other copy returns 1.
\<close>

theorem smooth_stop5_copies_differ:
  "smooth_stop5_util_h 1 0 1 1 = -1 \<and> smooth_stop5_part_000 1 0 1 1 = 1 \<and>
   smooth_stop5_util_h 1 0 1 1 \<noteq> smooth_stop5_part_000 1 0 1 1"
  by (simp add: smooth_stop5_util_h_def smooth_stop5_part_000_def)

section \<open>get_barycentric\<close>

lemma int_cast_of_int:
  "- (2 ^ 31) \<le> k \<Longrightarrow> k < 2 ^ 31 \<Longrightarrow> int_cast (of_int k) = Some (word_of_int k)"
  by (simp add: int_cast_def)

lemma int_cast_undefined: "k < - (2 ^ 31) \<or> 2 ^ 31 \<le> k \<Longrightarrow> int_cast (of_int k) = None"
  by (auto simp add: int_cast_def)

lemma sint_word_of_int_32:
  "- (2 ^ 31) \<le> k \<Longrightarrow> k < 2 ^ 31 \<Longrightarrow> sint (word_of_int k :: 32 word) = k"
  by (simp add: sint_sbintrunc' signed_take_bit_int_eq_self)

lemma sint_minus_2:
  fixes w :: "32 word"
  assumes "- (2 ^ 31) \<le> sint w - 2"
  shows "sint (w - 2) = sint w - 2"
proof -
  have "sint w < 2 ^ 31"
    using sint_lt [of w] by simp
  then have "sint (w - 2) = sint (word_of_int (sint w - 2) :: 32 word)"
    by simp
  also have "\<dots> = sint w - 2"
    using assms \<open>sint w < 2 ^ 31\<close> by (intro sint_word_of_int_32) simp_all
  finally show ?thesis .
qed

text \<open>Two runs with \<open>T = double\<close>: one where \<open>floor(x)\<close> does not fit \<open>int\<close>, one
  where the subtraction \<open>x - s\<close> rounds.\<close>

lemma get_barycentric_double_large: "get_barycentric round_double (10 ^ 10) 0 10 = None"
proof -
  have "\<lfloor>10 ^ 10 :: real\<rfloor> = 10 ^ 10"
    by (metis floor_of_int of_int_numeral of_int_power)
  then show ?thesis
    using int_cast_undefined [of "10 ^ 10"] by (simp add: get_barycentric_def)
qed

lemma round_double_large: "round_double (10 ^ 10) = Some (10 ^ 10)"
  unfolding round_double_def
  using round_binary_eval [of "33" "10 ^ 10" "-19" 53 1023 "10 ^ 10 * 2 ^ 19"]
  by (simp add: round_half_even_def)

lemma round_double_below_1_tiny: "round_double (1 - 2 powi (- 60)) = Some 1"
  unfolding round_double_def
  using round_binary_eval [of "-1" "1 - 2 powi (-60)" "-53" 53 1023 "2 ^ 53"]
  by (simp add: round_half_even_def)

lemma round_double_tiny: "round_double (- (2 powi (- 60))) = Some (- (2 powi (- 60)))"
  unfolding round_double_def
  using round_binary_eval [of "-60" "- (2 powi (-60))" "-112" 53 1023 "- (2 ^ 52)"]
  by (simp add: round_half_even_def)

lemma get_barycentric_double_tiny:
  "get_barycentric round_double (- (2 powi (- 60))) (- 5) 10 = Some (- 1, Some 1)"
proof -
  have f: "\<lfloor>- (2 powi (- 60)) :: real\<rfloor> = - 1"
    by (simp add: floor_eq_iff)
  have "int_cast (- 1) = Some (- 1)"
    using int_cast_of_int [of "- 1"] by simp
  then show ?thesis
    using round_double_below_1_tiny by (simp add: get_barycentric_def f fsub_def)
qed

text \<open>
  C8, as the claim states it: for every real \<open>x\<close> the cell index is set to an integer
  from \<open>i_low\<close> to \<open>i_high - 2\<close>, and the offset is \<open>x - \<lfloor>x\<rfloor>\<close> when \<open>\<lfloor>x\<rfloor>\<close> is in
  that range. With \<open>T = double\<close>: at \<open>x = 10\<^sup>1\<^sup>0\<close>, \<open>i_low = 0\<close>, \<open>i_high = 10\<close> the
  conversion of \<open>floor(x)\<close> to \<open>int\<close> is undefined, and nothing is set; at
  \<open>x = - 2\<^sup>-\<^sup>6\<^sup>0\<close>, a value of \<open>double\<close>, with \<open>i_low = -5\<close>, \<open>i_high = 10\<close>, the index
  \<open>\<lfloor>x\<rfloor> = -1\<close> is in range and the offset is 1, not \<open>x - \<lfloor>x\<rfloor>\<close>.
\<close>

theorem get_barycentric_double_counterexample:
  "sint (0 :: 32 word) \<le> sint (10 :: 32 word) - 2 \<and>
   round_double (10 ^ 10) = Some (10 ^ 10) \<and>
   get_barycentric round_double (10 ^ 10) 0 10 = None \<and>
   sint (- 5 :: 32 word) \<le> sint (10 :: 32 word) - 2 \<and>
   round_double (- (2 powi (- 60))) = Some (- (2 powi (- 60))) \<and>
   \<lfloor>- (2 powi (- 60)) :: real\<rfloor> = - 1 \<and>
   get_barycentric round_double (- (2 powi (- 60))) (- 5) 10 = Some (- 1, Some 1) \<and>
   (1 :: real) \<noteq> - (2 powi (- 60)) - of_int \<lfloor>- (2 powi (- 60)) :: real\<rfloor>"
proof -
  have f: "\<lfloor>- (2 powi (- 60)) :: real\<rfloor> = - 1"
    by (simp add: floor_eq_iff)
  show ?thesis
    using get_barycentric_double_large get_barycentric_double_tiny round_double_tiny
      round_double_large
    by (simp add: f)
qed

text \<open>
  C8, amended. For every \<open>x\<close> whose floor fits \<open>int\<close>
  (\<open>- 2\<^sup>3\<^sup>1 \<le> \<lfloor>x\<rfloor> < 2\<^sup>3\<^sup>1\<close>) and all \<open>int\<close> values with \<open>i_low \<le> i_high - 2\<close>,
  \<open>get_barycentric\<close> with \<open>T = double\<close> sets the cell index to an integer from
  \<open>i_low\<close> to \<open>i_high - 2\<close> and the offset to a value from 0 to 1. When \<open>\<lfloor>x\<rfloor>\<close> is
  already in that range, the index is \<open>\<lfloor>x\<rfloor>\<close> and the offset is \<open>x - \<lfloor>x\<rfloor>\<close> rounded
  to \<open>double\<close>; the offset is 0 when the index is clamped to the low end and 1 when
  it is clamped to the high end.
\<close>

theorem get_barycentric_clamped:
  assumes "sint i_low \<le> sint i_high - 2" and "- (2 ^ 31) \<le> \<lfloor>x\<rfloor>" and "\<lfloor>x\<rfloor> < 2 ^ 31"
  shows "\<exists>i f. get_barycentric round_double x i_low i_high = Some (i, Some f) \<and>
     sint i_low \<le> sint i \<and> sint i \<le> sint i_high - 2 \<and> 0 \<le> f \<and> f \<le> 1 \<and>
     (sint i_low \<le> \<lfloor>x\<rfloor> \<and> \<lfloor>x\<rfloor> \<le> sint i_high - 2 \<longrightarrow>
        sint i = \<lfloor>x\<rfloor> \<and> round_double (x - of_int \<lfloor>x\<rfloor>) = Some f) \<and>
     (\<lfloor>x\<rfloor> < sint i_low \<longrightarrow> i = i_low \<and> f = 0) \<and>
     (sint i_high - 2 < \<lfloor>x\<rfloor> \<longrightarrow> i = i_high - 2 \<and> f = 1)"
proof -
  have lo: "- (2 ^ 31) \<le> sint i_low"
    using sint_ge [of i_low] by simp
  with assms(1) have hi: "sint (i_high - 2) = sint i_high - 2" "\<not> sint i_high - 2 < - (2 ^ 31)"
    by (simp_all add: sint_minus_2)
  have c: "int_cast (of_int \<lfloor>x\<rfloor>) = Some (word_of_int \<lfloor>x\<rfloor>)"
    and s: "sint (word_of_int \<lfloor>x\<rfloor> :: 32 word) = \<lfloor>x\<rfloor>"
    using assms(2,3) by (simp_all add: int_cast_of_int sint_word_of_int_32)
  have "0 \<le> x - of_int \<lfloor>x\<rfloor>" "x - of_int \<lfloor>x\<rfloor> \<le> 1"
    by linarith+
  then obtain z where z: "round_double (x - of_int \<lfloor>x\<rfloor>) = Some z" "0 \<le> z" "z \<le> 1"
    using round_double_unit by blast
  consider "\<lfloor>x\<rfloor> < sint i_low" | "sint i_high - 2 < \<lfloor>x\<rfloor>"
    | "sint i_low \<le> \<lfloor>x\<rfloor>" "\<lfloor>x\<rfloor> \<le> sint i_high - 2"
    by linarith
  then show ?thesis
  proof cases
    case 1
    then show ?thesis
      using assms(1) by (simp add: get_barycentric_def c s)
  next
    case 2
    with assms(1) have "\<not> \<lfloor>x\<rfloor> < sint i_low"
      by linarith
    with 2 hi assms(1) show ?thesis
      by (simp add: get_barycentric_def c s)
  next
    case 3
    with z hi show ?thesis
      by (simp add: get_barycentric_def c s fsub_def)
  qed
qed

theorem get_barycentric_clamped_witness:
  "sint (0 :: 32 word) \<le> sint (10 :: 32 word) - 2 \<and>
   - (2 ^ 31) \<le> \<lfloor>5 / 2 :: real\<rfloor> \<and> \<lfloor>5 / 2 :: real\<rfloor> < 2 ^ 31 \<and>
   get_barycentric round_double (5 / 2) 0 10 = Some (2, Some (1 / 2)) \<and>
   get_barycentric round_double (- 3 / 2) 0 10 = Some (0, Some 0) \<and>
   get_barycentric round_double (41 / 2) 0 10 = Some (8, Some 1)"
proof -
  have h: "sint (0 :: 32 word) \<le> sint (10 :: 32 word) - 2" by simp
  have f: "\<lfloor>5/2 :: real\<rfloor> = 2" "\<lfloor>-3/2 :: real\<rfloor> = -2" "\<lfloor>41/2 :: real\<rfloor> = 20"
    by simp_all
  have r: "round_double (1 / 2) = Some (1 / 2)"
    unfolding round_double_def
    using round_binary_eval [of "-1" "1 / 2" "-53" 53 1023 "2 ^ 52"]
    by (simp add: round_half_even_def)
  have c: "int_cast 2 = Some 2" "int_cast (- 2) = Some (- 2)" "int_cast 20 = Some 20"
    using int_cast_of_int [of 2] int_cast_of_int [of "- 2"] int_cast_of_int [of 20] by simp_all
  have v: "get_barycentric round_double (5 / 2) 0 10 = Some (2, Some (1 / 2))"
    "get_barycentric round_double (- 3 / 2) 0 10 = Some (0, Some 0)"
    "get_barycentric round_double (41 / 2) 0 10 = Some (8, Some 1)"
    by (simp_all add: get_barycentric_def f c fsub_def r)
  have b: "- (2 ^ 31) \<le> \<lfloor>5 / 2 :: real\<rfloor>" "\<lfloor>5 / 2 :: real\<rfloor> < 2 ^ 31"
    by (simp_all add: f)    
  from get_barycentric_clamped [OF h b] h b v
  show ?thesis
    by simp
qed

section \<open>Morton codes\<close>

text \<open>A bit position of a 64-bit word is one of 64 numbers; the lemmas on the
  masked shifts go through them one by one.\<close>

lemma less_numeral_step: "(n::nat) < numeral k \<longleftrightarrow> n = pred_numeral k \<or> n < pred_numeral k"
  by (auto simp: numeral_eq_Suc less_Suc_eq)

lemma less_64_cases:
  fixes n :: nat
  assumes "n < 64"
  obtains "n = 0" | "n = 1" | "n = 2" | "n = 3" | "n = 4" | "n = 5" | "n = 6" | "n = 7" | "n = 8" | "n = 9" | "n = 10" | "n = 11" | "n = 12" | "n = 13" | "n = 14" | "n = 15" | "n = 16" | "n = 17" | "n = 18" | "n = 19" | "n = 20" | "n = 21" | "n = 22" | "n = 23" | "n = 24" | "n = 25" | "n = 26" | "n = 27" | "n = 28" | "n = 29" | "n = 30" | "n = 31" | "n = 32" | "n = 33" | "n = 34" | "n = 35" | "n = 36" | "n = 37" | "n = 38" | "n = 39" | "n = 40" | "n = 41" | "n = 42" | "n = 43" | "n = 44" | "n = 45" | "n = 46" | "n = 47" | "n = 48" | "n = 49" | "n = 50" | "n = 51" | "n = 52" | "n = 53" | "n = 54" | "n = 55" | "n = 56" | "n = 57" | "n = 58" | "n = 59" | "n = 60" | "n = 61" | "n = 62" | "n = 63"
  using assms by (auto simp add: less_numeral_step)

lemma not_bit_ge_64: "\<not> k < 64 \<Longrightarrow> \<not> bit (w :: 64 word) k"
  by (auto dest: bit_imp_le_length)

lemma not_bit_ge_32: "32 \<le> k \<Longrightarrow> \<not> bit (w :: 32 word) k"
  by (auto dest: bit_imp_le_length)

lemma bit_spread_stage:
  "bit (spread_stage s m x) n \<longleftrightarrow> (bit x n \<or> (s \<le> n \<and> bit x (n - s))) \<and> bit m n"
  by (auto simp add: spread_stage_def bit_simps dest: bit_imp_le_length)

lemma bit_morton_spread:
  fixes a :: "32 word"
  shows "bit (morton_spread (ucast a)) n \<longleftrightarrow> n < 64 \<and> even n \<and> bit a (n div 2)"
proof -
  define x1 :: "64 word" where "x1 = spread_stage 16 0x0000FFFF0000FFFF (ucast a)"
  define x2 where "x2 = spread_stage 8 0x00FF00FF00FF00FF x1"
  define x3 where "x3 = spread_stage 4 0x0F0F0F0F0F0F0F0F x2"
  define x4 where "x4 = spread_stage 2 0x3333333333333333 x3"
  define x5 where "x5 = spread_stage 1 0x5555555555555555 x4"
  have b1: "bit x1 k \<longleftrightarrow> k < 64 \<and> k mod 32 < 16 \<and> bit a (k div 32 * 16 + k mod 32)" for k
  proof (cases "k < 64")
    case False
    then show ?thesis by (simp add: not_bit_ge_64)
  next
    case True
    then show ?thesis
      by (cases k rule: less_64_cases)
        (simp_all add: x1_def bit_spread_stage not_bit_ge_32 bit_ucast_iff  flip: numeral_2_eq_2)
  qed
  have b2: "bit x2 k \<longleftrightarrow> k < 64 \<and> k mod 16 < 8 \<and> bit a (k div 16 * 8 + k mod 16)" for k
  proof (cases "k < 64")
    case False
    then show ?thesis by (simp add: not_bit_ge_64)
  next
    case True
    then show ?thesis
      by (cases k rule: less_64_cases)
        (simp_all add: x2_def bit_spread_stage not_bit_ge_32 bit_ucast_iff b1 flip: numeral_2_eq_2)
  qed
  have b3: "bit x3 k \<longleftrightarrow> k < 64 \<and> k mod 8 < 4 \<and> bit a (k div 8 * 4 + k mod 8)" for k
  proof (cases "k < 64")
    case False
    then show ?thesis by (simp add: not_bit_ge_64)
  next
    case True
    then show ?thesis
      by (cases k rule: less_64_cases)
        (simp_all add: x3_def bit_spread_stage not_bit_ge_32 bit_ucast_iff b2 flip: numeral_2_eq_2)
  qed
  have b4: "bit x4 k \<longleftrightarrow> k < 64 \<and> k mod 4 < 2 \<and> bit a (k div 4 * 2 + k mod 4)" for k
  proof (cases "k < 64")
    case False
    then show ?thesis by (simp add: not_bit_ge_64)
  next
    case True
    then show ?thesis
      by (cases k rule: less_64_cases)
        (simp_all add: x4_def bit_spread_stage not_bit_ge_32 bit_ucast_iff b3 flip: numeral_2_eq_2)
  qed
  have b5: "bit x5 k \<longleftrightarrow> k < 64 \<and> k mod 2 < 1 \<and> bit a (k div 2 * 1 + k mod 2)" for k
  proof (cases "k < 64")
    case False
    then show ?thesis by (simp add: not_bit_ge_64)
  next
    case True
    then show ?thesis
      by (cases k rule: less_64_cases)
        (simp_all add: x5_def bit_spread_stage not_bit_ge_32 bit_ucast_iff b4 flip: numeral_2_eq_2)
  qed

  have "bit x5 n \<longleftrightarrow> n < 64 \<and> even n \<and> bit a (n div 2)"
    by (auto simp add: b5 even_iff_mod_2_eq_zero)
  then show ?thesis
    by (simp add: morton_spread_def x5_def x4_def x3_def x2_def x1_def)
qed

lemma bit_compact_stage:
  "bit (compact_stage s m x) n \<longleftrightarrow> (bit x n \<or> bit x (n + s)) \<and> bit m n"
  by (auto simp add: compact_stage_def bit_simps ac_simps)

lemma bit_morton_compact:
  "bit (morton_compact d) n \<longleftrightarrow> n < 32 \<and> bit d (2 * n)"
proof -
  define x0 :: "64 word" where "x0 = d AND 0x5555555555555555"
  define x1 where "x1 = compact_stage 1 0x3333333333333333 x0"
  define x2 where "x2 = compact_stage 2 0x0F0F0F0F0F0F0F0F x1"
  define x3 where "x3 = compact_stage 4 0x00FF00FF00FF00FF x2"
  define x4 where "x4 = compact_stage 8 0x0000FFFF0000FFFF x3"
  define x5 where "x5 = compact_stage 16 0x00000000FFFFFFFF x4"
  have b0: "bit x0 k \<longleftrightarrow> k < 64 \<and> k mod 2 < 1 \<and> bit d (2 * (k div 2 * 1 + k mod 2))" for k
  proof (cases "k < 64")
    case False
    then show ?thesis by (simp add: not_bit_ge_64)
  next
    case True
    then show ?thesis
      by (cases k rule: less_64_cases) (simp_all add: x0_def bit_simps flip: numeral_2_eq_2)
  qed
  have b1: "bit x1 k \<longleftrightarrow> k < 64 \<and> k mod 4 < 2 \<and> bit d (2 * (k div 4 * 2 + k mod 4))" for k
  proof (cases "k < 64")
    case False
    then show ?thesis by (simp add: not_bit_ge_64)
  next
    case True
    then show ?thesis
      by (cases k rule: less_64_cases)
        (simp_all add: x1_def bit_compact_stage not_bit_ge_64 b0 flip: numeral_2_eq_2)
  qed
  have b2: "bit x2 k \<longleftrightarrow> k < 64 \<and> k mod 8 < 4 \<and> bit d (2 * (k div 8 * 4 + k mod 8))" for k
  proof (cases "k < 64")
    case False
    then show ?thesis by (simp add: not_bit_ge_64)
  next
    case True
    then show ?thesis
      by (cases k rule: less_64_cases)
        (simp_all add: x2_def bit_compact_stage not_bit_ge_64 b1 flip: numeral_2_eq_2)
  qed
  have b3: "bit x3 k \<longleftrightarrow> k < 64 \<and> k mod 16 < 8 \<and> bit d (2 * (k div 16 * 8 + k mod 16))" for k
  proof (cases "k < 64")
    case False
    then show ?thesis by (simp add: not_bit_ge_64)
  next
    case True
    then show ?thesis
      by (cases k rule: less_64_cases)
        (simp_all add: x3_def bit_compact_stage not_bit_ge_64 b2 flip: numeral_2_eq_2)
  qed
  have b4: "bit x4 k \<longleftrightarrow> k < 64 \<and> k mod 32 < 16 \<and> bit d (2 * (k div 32 * 16 + k mod 32))" for k
  proof (cases "k < 64")
    case False
    then show ?thesis by (simp add: not_bit_ge_64)
  next
    case True
    then show ?thesis
      by (cases k rule: less_64_cases)
        (simp_all add: x4_def bit_compact_stage not_bit_ge_64 b3 flip: numeral_2_eq_2)
  qed
  have b5: "bit x5 k \<longleftrightarrow> k < 64 \<and> k mod 64 < 32 \<and> bit d (2 * (k div 64 * 32 + k mod 64))" for k
  proof (cases "k < 64")
    case False
    then show ?thesis by (simp add: not_bit_ge_64)
  next
    case True
    then show ?thesis
      by (cases k rule: less_64_cases)
        (simp_all add: x5_def bit_compact_stage not_bit_ge_64 b4 flip: numeral_2_eq_2)
  qed

  have "bit x5 n \<longleftrightarrow> n < 32 \<and> bit d (2 * n)"
    by (auto simp add: b5)
  then show ?thesis
    by (simp add: morton_compact_def x5_def x4_def x3_def x2_def x1_def x0_def)
qed

lemma morton_xy2d_stages: "morton_xy2d x y = morton_spread x OR push_bit 1 (morton_spread y)"
  unfolding morton_xy2d_def morton_spread_def spread_stage_def Let_def by (rule refl)

lemma morton_1_stages: "morton_1 d = ucast (morton_compact d)"
  unfolding morton_1_def morton_compact_def compact_stage_def Let_def by (rule refl)

lemma bit_morton_1: "bit (morton_1 d) n \<longleftrightarrow> n < 32 \<and> bit d (2 * n)"
  unfolding morton_1_stages by (auto simp add: bit_ucast_iff bit_morton_compact)

lemma bit_push_bit_1:
  "bit (push_bit 1 w) n \<longleftrightarrow> 1 \<le> n \<and> n < 64 \<and> bit w (n - 1)" for w :: "64 word"
  using bit_push_bit_iff [of 1 w n] by (auto simp add: possible_bit_word)

text \<open>The code interleaves the coordinates: its even bits are those of \<open>x\<close>, its odd
  bits those of \<open>y\<close>.\<close>

lemma bit_morton_xy2d:
  fixes a b :: "32 word"
  shows "bit (morton_xy2d (ucast a) (ucast b)) n \<longleftrightarrow>
    n < 64 \<and> (if even n then bit a (n div 2) else bit b (n div 2))"
proof -
  have "bit (morton_xy2d (ucast a) (ucast b)) n \<longleftrightarrow>
      bit (morton_spread (ucast a)) n \<or> bit (push_bit 1 (morton_spread (ucast b))) n"
    by (simp only: morton_xy2d_stages bit_or_iff)
  also have "\<dots> \<longleftrightarrow> (n < 64 \<and> even n \<and> bit a (n div 2)) \<or>
      (1 \<le> n \<and> n < 64 \<and> n - 1 < 64 \<and> even (n - 1) \<and> bit b ((n - 1) div 2))"
    by (simp only: bit_push_bit_1 bit_morton_spread)
  also have "\<dots> \<longleftrightarrow> n < 64 \<and> (if even n then bit a (n div 2) else bit b (n div 2))"
  proof (cases "even n")
    case True
    then show ?thesis by auto
  next
    case False
    then have "(n - 1) div 2 = n div 2" "1 \<le> n" "even (n - 1)"
      by (auto elim: oddE)
    with False show ?thesis by auto
  qed
  finally show ?thesis .
qed

lemma morton_d2xy_xy2d_ucast:
  fixes a b :: "32 word"
  shows "morton_d2xy (morton_xy2d (ucast a) (ucast b)) = (ucast a, ucast b)"
proof -
  have "morton_1 (morton_xy2d (ucast a) (ucast b)) = a"
    by (rule bit_word_eqI) (auto simp add: bit_morton_1 bit_morton_xy2d dest: bit_imp_le_length)
  moreover have "morton_1 (drop_bit 1 (morton_xy2d (ucast a) (ucast b))) = b"
    by (rule bit_word_eqI)
      (auto simp add: bit_morton_1 bit_drop_bit_eq bit_morton_xy2d dest: bit_imp_le_length)
  ultimately show ?thesis
    by (simp add: morton_d2xy_def)
qed

lemma ucast_ucast_32: "x < 2 ^ 32 \<Longrightarrow> ucast (ucast x :: 32 word) = x" for x :: "64 word"
proof -
  assume "x < 2 ^ 32"
  then have "x AND mask 32 = x"
    by (rule less_mask_eq)
  moreover have "ucast (ucast x :: 32 word) = x AND mask 32"
    by (rule bit_word_eqI) (auto simp add: bit_simps)
  ultimately show ?thesis by simp
qed

text \<open>
  C1. Morton round-trip: for all coordinates \<open>x\<close> and \<open>y\<close> below \<open>2\<^sup>3\<^sup>2\<close>,
  decoding the code that \<open>morton_xy2d\<close> produces gives the coordinates back:
  \<open>morton_d2xy (morton_xy2d x y)\<close> is \<open>(x, y)\<close>.
\<close>

theorem morton_round_trip:
  "x < 2 ^ 32 \<Longrightarrow> y < 2 ^ 32 \<Longrightarrow> morton_d2xy (morton_xy2d x y) = (x, y)"
  using morton_d2xy_xy2d_ucast [of "ucast x" "ucast y"] by (simp add: ucast_ucast_32)

theorem morton_round_trip_witness:
  "(5 :: 64 word) < 2 ^ 32 \<and> (3 :: 64 word) < 2 ^ 32 \<and> morton_xy2d 5 3 = 27 \<and>
   morton_d2xy (morton_xy2d 5 3) = (5, 3)"
proof -
  have h: "(5 :: 64 word) < 2 ^ 32" "(3 :: 64 word) < 2 ^ 32" by simp_all
  have v: "morton_xy2d 5 3 = 27"
    by (simp add: morton_xy2d_def)
  from h v morton_round_trip [OF h] show ?thesis by simp
qed

text \<open>The bound on the coordinates is needed: bit 32 of \<open>x\<close> is lost.\<close>

lemma morton_range_needed: "morton_d2xy (morton_xy2d (2 ^ 32) 0) \<noteq> (2 ^ 32, 0)"
  by (simp add: morton_xy2d_def morton_d2xy_def morton_1_def)

end
